theory Spec2Isabelle
  imports Main "HOL-Library.Sublist"
begin

section \<open>Data model of \<open>streamlit_app.py\<close>\<close>

text \<open>
  The application keeps its state in Streamlit's session state: the API token, the
  session history \<open>job_history\<close>, the per-user history \<open>global_history\<close> and the hash
  of the current token. A history entry is a Python dict with five fixed keys. The same
  dict object is put into \<open>job_history\<close> and into the user's list of \<open>global_history\<close>,
  and \<open>load_user_history\<close> copies the list but not the dicts in it, so the entries are
  shared objects: the model keeps them in a store and the two histories hold addresses.
  The lists themselves are never shared (every write builds a new list by slicing or
  copying), so they are values.
\<close>

type_synonym addr = nat

record job_entry =
  id' :: string
  title :: string
  company :: string
  submitted_at :: string
  status :: string

record session_state =
  api_token :: "string option"
  job_history :: "addr list"
  global_history :: "string \<rightharpoonup> addr list"
  current_user_hash :: "string option"
  store :: "job_entry list"

text \<open>The state after the initialisation block (lines 48 to 59): nothing allocated.\<close>

definition init_state :: session_state where
  "init_state = \<lparr>api_token = None, job_history = [], global_history = Map.empty,
                  current_user_hash = None, store = []\<rparr>"

datatype py_error =
    KeyError string
  | ValueError string
  | RequestException string
  | JSONDecodeError string

text \<open>
  Python's \<open>repr\<close> of a string. The quote is the single quote, unless the string holds a
  single quote and no double quote. A backslash and the chosen quote are escaped, newline,
  carriage return and tab by their letters, every other control character as \<open>\xhh\<close>.
  A \<open>char\<close> is a byte here: the bytes of a character beyond ASCII are kept as they are.
\<close>

definition hex_digit :: "nat \<Rightarrow> char" where
  "hex_digit n = ''0123456789abcdef'' ! (n mod 16)"

definition repr_char :: "char \<Rightarrow> char \<Rightarrow> string" where
  "repr_char q c =
     (if c = CHR 0x5C then [CHR 0x5C, CHR 0x5C]
      else if c = q then [CHR 0x5C, q]
      else if c = CHR 0x0A then [CHR 0x5C, CHR ''n'']
      else if c = CHR 0x0D then [CHR 0x5C, CHR ''r'']
      else if c = CHR 0x09 then [CHR 0x5C, CHR ''t'']
      else if (of_char c :: nat) < 32 \<or> (of_char c :: nat) = 127 then
        [CHR 0x5C, CHR ''x'', hex_digit (of_char c div 16), hex_digit (of_char c)]
      else [c])"

definition py_repr :: "string \<Rightarrow> string" where
  "py_repr k =
     (let q = (if CHR 0x27 \<in> set k \<and> CHR 0x22 \<notin> set k then CHR 0x22 else CHR 0x27)
      in q # concat (map (repr_char q) k) @ [q])"

text \<open>\<open>str(e)\<close> of an exception: a \<open>KeyError\<close> prints the repr of its key.\<close>

fun str_of :: "py_error \<Rightarrow> string" where
  "str_of (KeyError k) = py_repr k"
| "str_of (ValueError m) = m"
| "str_of (RequestException m) = m"
| "str_of (JSONDecodeError m) = m"

text \<open>Python's truth value of \<open>current_user_hash\<close>: \<open>None\<close> and the empty string are false.\<close>

definition truthy :: "string option \<Rightarrow> bool" where
  "truthy v = (case v of None \<Rightarrow> False | Some x \<Rightarrow> x \<noteq> [])"

text \<open>\<open>d[k]\<close> on a dict raises \<open>KeyError\<close> on a missing key.\<close>

definition getitem :: "(string \<rightharpoonup> string) \<Rightarrow> string \<Rightarrow> py_error + string" where
  "getitem d k = (case d k of None \<Rightarrow> Inl (KeyError k) | Some v \<Rightarrow> Inr v)"

text \<open>What the histories show: the entries behind the addresses.\<close>

definition deref :: "job_entry list \<Rightarrow> addr list \<Rightarrow> job_entry list" where
  "deref hp as = map (\<lambda>a. hp ! a) as"

definition active_jobs :: "session_state \<Rightarrow> job_entry list" where
  "active_jobs s = deref (store s) (job_history s)"

definition archive :: "session_state \<Rightarrow> string \<rightharpoonup> job_entry list" where
  "archive s h = map_option (deref (store s)) (global_history s h)"

section \<open>Helper functions\<close>

text \<open>
  \<open>get_user_hash\<close> (lines 65 to 67). \<open>hashlib.md5(token.encode()).hexdigest()\<close> is a
  library function: it is the parameter \<open>md5_hexdigest\<close>; the slice \<open>[:16]\<close> is \<open>take 16\<close>.
\<close>

definition get_user_hash :: "(string \<Rightarrow> string) \<Rightarrow> string \<Rightarrow> string" where
  "get_user_hash md5_hexdigest token = take 16 (md5_hexdigest token)"

text \<open>
  The dict literal of \<open>save_job_to_history\<close> (lines 106 to 112): the four lookups in
  \<open>job_data\<close> run in the order of the literal and the first missing key raises.
  \<open>now\<close> is the formatted \<open>datetime.now()\<close>.
\<close>

definition job_entry_of :: "(string \<rightharpoonup> string) \<Rightarrow> string \<Rightarrow> py_error + job_entry" where
  "job_entry_of job_data now =
     (case getitem job_data ''id'' of Inl e \<Rightarrow> Inl e | Inr i \<Rightarrow>
      (case getitem job_data ''title'' of Inl e \<Rightarrow> Inl e | Inr t \<Rightarrow>
       (case getitem job_data ''company'' of Inl e \<Rightarrow> Inl e | Inr c \<Rightarrow>
        (case getitem job_data ''status'' of Inl e \<Rightarrow> Inl e | Inr st \<Rightarrow>
           Inr \<lparr>id' = i, title = t, company = c, submitted_at = now, status = st\<rparr>))))"

text \<open>
  Lines 114 to 126, once the entry is built: the new dict gets a fresh address, the
  address goes to the front of \<open>job_history\<close>, which is cut to 20, and, when the user
  hash is truthy, to the front of the user's list (created empty when missing), which is
  cut to 100.
\<close>

definition store_entry :: "job_entry \<Rightarrow> session_state \<Rightarrow> session_state" where
  "store_entry job_entry s =
     (let a = length (store s);
          s1 = s\<lparr>store := store s @ [job_entry],
                 job_history := take 20 (a # job_history s)\<rparr>
      in if truthy (current_user_hash s1) then
           (case current_user_hash s1 of
              None \<Rightarrow> s1
            | Some h \<Rightarrow>
                (let gh = (if h \<in> dom (global_history s1) then global_history s1
                           else (global_history s1)(h \<mapsto> []));
                     b = (case gh h of None \<Rightarrow> [] | Some b \<Rightarrow> b)
                 in s1\<lparr>global_history := gh(h \<mapsto> take 100 (a # b))\<rparr>))
         else s1)"

text \<open>
  \<open>save_job_to_history\<close> (lines 104 to 126). The result pairs what the call did (raised
  or returned) with the session state it leaves behind.
\<close>

definition save_job_to_history ::
  "(string \<rightharpoonup> string) \<Rightarrow> string \<Rightarrow> session_state \<Rightarrow> (py_error + unit) \<times> session_state" where
  "save_job_to_history job_data now s =
     (case job_entry_of job_data now of
        Inl e \<Rightarrow> (Inl e, s)
      | Inr job_entry \<Rightarrow> (Inr (), store_entry job_entry s))"

text \<open>
  \<open>load_user_history\<close> (lines 128 to 133): \<open>.copy()\<close> copies the list of addresses, the
  entries stay shared. There is no \<open>else\<close> branch.
\<close>

definition load_user_history :: "session_state \<Rightarrow> session_state" where
  "load_user_history s =
     (case current_user_hash s of
        None \<Rightarrow> s
      | Some h \<Rightarrow>
          (if h \<noteq> [] then
             (case global_history s h of
                None \<Rightarrow> s
              | Some b \<Rightarrow> s\<lparr>job_history := b\<rparr>)
           else s))"

section \<open>Sidebar: authentication\<close>

datatype ui_message = Success string | Error string | Warning string

text \<open>
  The handler of the Authenticate button (lines 150 to 158). \<open>if api_key_input:\<close> is
  Python's truth value of a string: false for the empty string only. The success message
  starts with a check mark, U+2713, here its three bytes in UTF-8.
\<close>

definition check_mark :: string where
  "check_mark = [CHR 0xE2, CHR 0x9C, CHR 0x93]"

definition authenticate ::
  "(string \<Rightarrow> string) \<Rightarrow> string \<Rightarrow> session_state \<Rightarrow> ui_message \<times> session_state" where
  "authenticate md5_hexdigest api_key_input s =
     (if api_key_input \<noteq> [] then
        (Success (check_mark @ '' Authenticated successfully!''),
         load_user_history
           (s\<lparr>api_token := Some api_key_input,
              current_user_hash := Some (get_user_hash md5_hexdigest api_key_input)\<rparr>))
      else (Error ''Please enter a valid API token'', s))"

text \<open>The handler of the Logout button (lines 163 to 167).\<close>

definition logout :: "session_state \<Rightarrow> session_state" where
  "logout s = s\<lparr>api_token := None, current_user_hash := None, job_history := []\<rparr>"

section \<open>Check Status tab: the status update\<close>

text \<open>
  One of the two loops of lines 369 to 380: walk the list, at the first entry whose id is
  \<open>job_id\<close> assign its status and \<open>break\<close>. The assignment writes to the dict object, so
  it is a write to the store.
\<close>

fun update_first_status :: "string \<Rightarrow> string \<Rightarrow> addr list \<Rightarrow> job_entry list \<Rightarrow> job_entry list" where
  "update_first_status job_id new_status [] hp = hp"
| "update_first_status job_id new_status (a # as) hp =
     (if id' (hp ! a) = job_id then hp[a := (hp ! a)\<lparr>status := new_status\<rparr>]
      else update_first_status job_id new_status as hp)"

text \<open>
  Lines 369 to 380: first the session history, then the list of the current user, when
  the hash is truthy and the user has a list. \<open>new_status\<close> is \<open>status_data['status']\<close>.
\<close>

definition update_status :: "string \<Rightarrow> string \<Rightarrow> session_state \<Rightarrow> session_state" where
  "update_status job_id new_status s =
     (let hp1 = update_first_status job_id new_status (job_history s) (store s);
          hp2 = (case current_user_hash s of
                   None \<Rightarrow> hp1
                 | Some h \<Rightarrow>
                     (if h \<noteq> [] then
                        (case global_history s h of
                           None \<Rightarrow> hp1
                         | Some b \<Rightarrow> update_first_status job_id new_status b hp1)
                      else hp1))
      in s\<lparr>store := hp2\<rparr>)"

text \<open>
  The same update on a list of entries as values, following the words of the
  specification: the first record with a matching id gets the new status, nothing else
  changes.
\<close>

fun spec_update_first :: "string \<Rightarrow> string \<Rightarrow> job_entry list \<Rightarrow> job_entry list" where
  "spec_update_first job_id new_status [] = []"
| "spec_update_first job_id new_status (j # js) =
     (if id' j = job_id then j\<lparr>status := new_status\<rparr> # js
      else j # spec_update_first job_id new_status js)"







section \<open>The session as a sequence of interactions\<close>

text \<open>
  What a user can do to the histories. The Authenticate button is drawn only while
  \<open>api_token\<close> is \<open>None\<close> (line 143), the Logout button only otherwise (line 159), and the
  tabs are behind \<open>st.stop()\<close> for a session without a token (lines 185 to 187). A
  submission that was answered with 200 or 201 calls \<open>save_job_to_history\<close> on the parsed
  body (lines 306 to 308); an exception there ends the script run with the state as it
  is. A status check is made for a non-empty job id only (line 357); \<open>Status_fetched\<close> is a
  check answered with 200 and a body whose \<open>status\<close> is \<open>new_status\<close>: its write to the
  histories is \<open>update_status\<close>, whether or not a later line of the branch raises (a body
  without the key writes nothing, see \<open>status_fetched\<close>).
\<close>

datatype ui_event =
    Click_authenticate string
  | Click_logout
  | Submission_success "string \<rightharpoonup> string" string
  | Status_fetched string string

fun step :: "(string \<Rightarrow> string) \<Rightarrow> ui_event \<Rightarrow> session_state \<Rightarrow> session_state" where
  "step md5_hexdigest (Click_authenticate api_key_input) s =
     (if api_token s = None then snd (authenticate md5_hexdigest api_key_input s) else s)"
| "step md5_hexdigest Click_logout s =
     (if api_token s \<noteq> None then logout s else s)"
| "step md5_hexdigest (Submission_success job_data now) s =
     (if api_token s \<noteq> None then snd (save_job_to_history job_data now s) else s)"
| "step md5_hexdigest (Status_fetched job_id new_status) s =
     (if api_token s \<noteq> None \<and> job_id \<noteq> [] then update_status job_id new_status s else s)"

definition run :: "(string \<Rightarrow> string) \<Rightarrow> ui_event list \<Rightarrow> session_state \<Rightarrow> session_state" where
  "run md5_hexdigest evs s = fold (step md5_hexdigest) evs s"

section \<open>The API request wrapper\<close>

record response =
  status_code :: int
  resp_text :: string

definition API_BASE_URL :: string where
  "API_BASE_URL = ''https://transcribe-staging.api.inflexion.ai/enterprise''"

text \<open>
  \<open>make_api_request\<close> (lines 78 to 92). \<open>requests.get\<close> and \<open>requests.post\<close> are library
  calls that either return a response or raise: they are parameters. The body of the
  \<open>try\<close> is \<open>request_attempt\<close>; the \<open>raise ValueError\<close> for any other method is inside it.
  \<open>except Exception\<close> catches whatever the body raised, reports it with \<open>st.error\<close> and
  returns \<open>None\<close>. The result is what the call itself does: \<open>Inl\<close> when an exception leaves
  the function, \<open>Inr\<close> with the returned value and the messages shown otherwise.
\<close>

definition request_attempt ::
  "(string \<Rightarrow> 'h \<Rightarrow> py_error + response) \<Rightarrow> (string \<Rightarrow> 'h \<Rightarrow> 'd \<Rightarrow> 'f \<Rightarrow> py_error + response) \<Rightarrow>
   string \<Rightarrow> string \<Rightarrow> 'h \<Rightarrow> 'd \<Rightarrow> 'f \<Rightarrow> py_error + response" where
  "request_attempt requests_get requests_post method endpoint headers data files =
     (let url = API_BASE_URL @ endpoint in
      if method = ''GET'' then requests_get url headers
      else if method = ''POST'' then requests_post url headers data files
      else Inl (ValueError (''Unsupported method: '' @ method)))"

definition make_api_request ::
  "(string \<Rightarrow> 'h \<Rightarrow> py_error + response) \<Rightarrow> (string \<Rightarrow> 'h \<Rightarrow> 'd \<Rightarrow> 'f \<Rightarrow> py_error + response) \<Rightarrow>
   string \<Rightarrow> string \<Rightarrow> 'h \<Rightarrow> 'd \<Rightarrow> 'f \<Rightarrow> py_error + (response option \<times> ui_message list)" where
  "make_api_request requests_get requests_post method endpoint headers data files =
     (case request_attempt requests_get requests_post method endpoint headers data files of
        Inr response \<Rightarrow> Inr (Some response, [])
      | Inl e \<Rightarrow> Inr (None, [Error (''API Request Error: '' @ str_of e)]))"

section \<open>Download tab: the query string\<close>

text \<open>\<open>sep.join(xs)\<close> on a list of strings.\<close>

fun join :: "string \<Rightarrow> string list \<Rightarrow> string" where
  "join sep [] = []"
| "join sep [x] = x"
| "join sep (x # y # ys) = x @ sep @ join sep (y # ys)"

text \<open>Lines 462 to 474: five appends under their toggles, then the join.\<close>

definition query_string :: "bool \<Rightarrow> bool \<Rightarrow> bool \<Rightarrow> bool \<Rightarrow> bool \<Rightarrow> string" where
  "query_string remove_timestamps remove_word_timestamps remove_speaker_labels
                remove_insights remove_keywords =
     (let params = [];
          params = (if remove_timestamps then params @ [''remove_timestamps=1''] else params);
          params = (if remove_word_timestamps
                    then params @ [''remove_word_level_timestamps=1''] else params);
          params = (if remove_speaker_labels
                    then params @ [''remove_speaker_labels=1''] else params);
          params = (if remove_insights then params @ [''remove_insights=1''] else params);
          params = (if remove_keywords then params @ [''remove_keywords=1''] else params)
      in if params \<noteq> [] then ''?'' @ join ''&'' params else [])"

text \<open>
  The parameters as the specification words them: the five names in their fixed order,
  each kept when its toggle is set, each as \<open>name=1\<close>.
\<close>

definition toggle_names :: "string list" where
  "toggle_names = [''remove_timestamps'', ''remove_word_level_timestamps'',
                   ''remove_speaker_labels'', ''remove_insights'', ''remove_keywords'']"

definition spec_params :: "bool list \<Rightarrow> string list" where
  "spec_params toggles = map (\<lambda>(n, b). n @ ''=1'') (filter snd (zip toggle_names toggles))"


section \<open>The shape of a session's state\<close>

text \<open>
  What every state of a session has, whatever the user did (proved below for every run
  from \<open>init_state\<close>). Addresses point into the store.
\<close>

definition refs_ok :: "session_state \<Rightarrow> bool" where
  "refs_ok s \<longleftrightarrow>
     (\<forall>a \<in> set (job_history s). a < length (store s)) \<and>
     (\<forall>h b. global_history s h = Some b \<longrightarrow> (\<forall>a \<in> set b. a < length (store s)))"

text \<open>No list holds an entry twice, a user's list has at most 100 entries, and the lists
  of two users share no entry.\<close>

definition lists_ok :: "session_state \<Rightarrow> bool" where
  "lists_ok s \<longleftrightarrow>
     distinct (job_history s) \<and>
     (\<forall>h b. global_history s h = Some b \<longrightarrow> distinct b \<and> length b \<le> 100) \<and>
     (\<forall>h h' b b'. h \<noteq> h' \<and> global_history s h = Some b \<and> global_history s h' = Some b' \<longrightarrow>
        set b \<inter> set b' = {})"

text \<open>
  A token is set exactly when a user hash is. Without a user the session history is
  empty; with a truthy hash it is a prefix of the user's list (empty when the user has no
  list yet); with a hash that is the empty string it shares no entry with any list.
\<close>

definition linked :: "session_state \<Rightarrow> bool" where
  "linked s \<longleftrightarrow>
     (api_token s = None \<longleftrightarrow> current_user_hash s = None) \<and>
     (case current_user_hash s of
        None \<Rightarrow> job_history s = []
      | Some h \<Rightarrow>
          if h \<noteq> [] then
            (case global_history s h of
               None \<Rightarrow> job_history s = []
             | Some b \<Rightarrow> prefix (job_history s) b)
          else (\<forall>h' b. global_history s h' = Some b \<longrightarrow> set b \<inter> set (job_history s) = {}))"

definition session_inv :: "session_state \<Rightarrow> bool" where
  "session_inv s \<longleftrightarrow> refs_ok s \<and> lists_ok s \<and> linked s"

text \<open>A user's list of addresses, and the entries in it, \<open>[]\<close> for a user without a list.\<close>

definition bucket_of :: "session_state \<Rightarrow> string \<Rightarrow> addr list" where
  "bucket_of s h = (case global_history s h of None \<Rightarrow> [] | Some b \<Rightarrow> b)"

definition bucket_view :: "session_state \<Rightarrow> string \<Rightarrow> job_entry list" where
  "bucket_view s h = (case archive s h of None \<Rightarrow> [] | Some b \<Rightarrow> b)"

text \<open>The address at which a loop of the status update stops, if it stops.\<close>

fun first_match :: "string \<Rightarrow> job_entry list \<Rightarrow> addr list \<Rightarrow> addr option" where
  "first_match job_id hp [] = None"
| "first_match job_id hp (a # as) =
     (if id' (hp ! a) = job_id then Some a else first_match job_id hp as)"

text \<open>
  A run of successful submissions, each with its parsed body and the time of the call,
  and the entries they record: a body without one of the four keys records nothing.
\<close>

definition submissions :: "((string \<rightharpoonup> string) \<times> string) list \<Rightarrow> ui_event list" where
  "submissions jobs = map (\<lambda>(job_data, now). Submission_success job_data now) jobs"

fun recorded :: "((string \<rightharpoonup> string) \<times> string) list \<Rightarrow> job_entry list" where
  "recorded [] = []"
| "recorded ((job_data, now) # jobs) =
     (case job_entry_of job_data now of
        Inl e \<Rightarrow> recorded jobs
      | Inr job_entry \<Rightarrow> job_entry # recorded jobs)"


section \<open>Every run keeps the shape\<close>

text \<open>Each handler keeps \<open>session_inv\<close>, so every state reached from \<open>init_state\<close> has it.\<close>


lemma store_entry_fields:
  "store (store_entry e s) = store s @ [e]"
  "job_history (store_entry e s) = take 20 (length (store s) # job_history s)"
  "api_token (store_entry e s) = api_token s"
  "current_user_hash (store_entry e s) = current_user_hash s"
  by (simp_all add: store_entry_def Let_def truthy_def split: option.splits)

lemma store_entry_global:
  "global_history (store_entry e s) =
     (case current_user_hash s of
        None \<Rightarrow> global_history s
      | Some h \<Rightarrow> if h \<noteq> [] then (global_history s)(h \<mapsto> take 100 (length (store s) # bucket_of s h))
                  else global_history s)"
  by (auto simp add: store_entry_def Let_def truthy_def bucket_of_def dom_def split: option.splits)

lemma inv_init: "session_inv init_state"
  by (simp add: session_inv_def refs_ok_def lists_ok_def linked_def init_state_def)

lemma inv_logout: "session_inv s \<Longrightarrow> session_inv (logout s)"
  by (simp add: session_inv_def refs_ok_def lists_ok_def linked_def logout_def)

lemma inv_load:
  assumes "session_inv s" "api_token s = None"
  shows "session_inv (load_user_history (s\<lparr>api_token := Some k, current_user_hash := Some h\<rparr>))"
  using assms
  by (auto simp add: session_inv_def refs_ok_def lists_ok_def linked_def load_user_history_def split: option.splits)

lemma inv_authenticate:
  "session_inv s \<Longrightarrow> api_token s = None \<Longrightarrow> session_inv (snd (authenticate hexdigest k s))"
  by (simp add: authenticate_def inv_load)

lemma length_update_first [simp]:
  "length (update_first_status jid st as hp) = length hp"
  by (induction as) auto

lemma inv_update_status: "session_inv s \<Longrightarrow> session_inv (update_status jid st s)"
  by (auto simp add: session_inv_def refs_ok_def lists_ok_def linked_def update_status_def Let_def split: option.splits)

lemma prefix_take_take:
  assumes "prefix xs ys" "n \<le> m"
  shows "prefix (take n xs) (take m ys)"
proof -
  from assms(1) obtain zs where ys: "ys = xs @ zs" by (auto simp: prefix_def)
  have "take n xs = take (min n (length xs)) (take m ys)"
    using assms(2) by (simp add: ys min_def)
  then show ?thesis by (metis take_is_prefix)
qed

lemma refs_store_entry:
  assumes "refs_ok s"
  shows "refs_ok (store_entry e s)"
  unfolding refs_ok_def store_entry_fields store_entry_global
  using assms
  by (auto simp add: refs_ok_def bucket_of_def less_Suc_eq simp del: take_Cons_numeral
           dest!: in_set_takeD split: option.splits if_splits)

lemma bucket_of_Some [simp]: "global_history s h = Some b \<Longrightarrow> bucket_of s h = b"
  by (simp add: bucket_of_def)

lemma bucket_of_None [simp]: "global_history s h = None \<Longrightarrow> bucket_of s h = []"
  by (simp add: bucket_of_def)

lemma in_bucket_ofD:
  "x \<in> set (bucket_of s h) \<Longrightarrow> \<exists>b. global_history s h = Some b \<and> x \<in> set b"
  by (cases "global_history s h") simp_all

lemma fresh_refs:
  assumes "refs_ok s"
  shows "length (store s) \<notin> set (job_history s)"
    and "global_history s h = Some b \<Longrightarrow> length (store s) \<notin> set b"
    and "length (store s) \<notin> set (bucket_of s h)"
proof -
  show "length (store s) \<notin> set (job_history s)"
    using assms by (auto simp add: refs_ok_def)
  show g: "\<And>h b. global_history s h = Some b \<Longrightarrow> length (store s) \<notin> set b"
    using assms by (fastforce simp add: refs_ok_def)
  show "length (store s) \<notin> set (bucket_of s h)"
    using g in_bucket_ofD by blast
qed

lemma lists_store_entry:
  assumes "refs_ok s" "lists_ok s"
  shows "lists_ok (store_entry e s)"
proof -
  let ?a = "length (store s)"
  have d1: "distinct (take 20 (?a # job_history s))"
    using assms fresh_refs(1)[OF assms(1)] by (intro distinct_take) (simp add: lists_ok_def)
  have db: "\<And>h. distinct (bucket_of s h)" using assms(2)
    by (auto simp add: lists_ok_def bucket_of_def split: option.splits)
  have d2: "\<And>h. distinct (take 100 (?a # bucket_of s h))"
    using fresh_refs(3)[OF assms(1)] db by (intro distinct_take) simp
  have l2: "\<And>h. length (take 100 (?a # bucket_of s h)) \<le> 100" by simp
  have sub: "\<And>h. set (take 100 (?a # bucket_of s h)) \<subseteq> insert ?a (set (bucket_of s h))"
    using set_take_subset[of 100] by fastforce
  have disj: "\<And>h h' b' x. h \<noteq> h' \<Longrightarrow> global_history s h' = Some b' \<Longrightarrow>
                 x \<in> set (take 100 (?a # bucket_of s h)) \<Longrightarrow> x \<in> set b' \<Longrightarrow> False"
  proof -
    fix h h' b' x assume hh: "h \<noteq> h'" and g: "global_history s h' = Some b'"
      and x: "x \<in> set (take 100 (?a # bucket_of s h))" "x \<in> set b'"
    have "?a \<notin> set b'" using fresh_refs(2)[OF assms(1) g] .
    moreover have "set (bucket_of s h) \<inter> set b' = {}"
    proof (cases "global_history s h")
      case None then show ?thesis by simp
    next
      case (Some b)
      with assms(2) hh g have "set b \<inter> set b' = {}" unfolding lists_ok_def by blast
      with Some show ?thesis by simp
    qed
    ultimately show False
      using sub[of h] x by blast
  qed
  show ?thesis
    unfolding lists_ok_def store_entry_fields store_entry_global
    using assms(2) d1 d2 l2
    apply (cases "current_user_hash s")
     apply (simp add: lists_ok_def)
    apply (simp add: lists_ok_def del: take_Cons_numeral length_take)
    apply (intro conjI impI allI)
    apply (auto simp del: take_Cons_numeral length_take)
     apply (metis disj)+
    done
qed


lemma linked_store_entry:
  assumes "refs_ok s" "linked s" "api_token s \<noteq> None"
  shows "linked (store_entry e s)"
proof -
  let ?a = "length (store s)"
  from assms obtain h where h: "current_user_hash s = Some h"
    by (auto simp add: linked_def)
  show ?thesis
  proof (cases "h = []")
    case True
    have "\<And>h' b. global_history s h' = Some b \<Longrightarrow>
            set b \<inter> set (take 20 (?a # job_history s)) = {}"
    proof -
      fix h' b assume g: "global_history s h' = Some b"
      have "?a \<notin> set b" using fresh_refs(2)[OF assms(1) g] .
      moreover have "set b \<inter> set (job_history s) = {}"
        using assms(2) h True g by (simp add: linked_def)
      moreover have "set (take 20 (?a # job_history s)) \<subseteq> insert ?a (set (job_history s))"
        using set_take_subset[of 20] by fastforce
      ultimately show "set b \<inter> set (take 20 (?a # job_history s)) = {}" by blast
    qed
    with assms h True show ?thesis
      unfolding linked_def store_entry_fields store_entry_global by simp
  next
    case False
    have "prefix (job_history s) (bucket_of s h)"
      using assms(2) h False by (cases "global_history s h") (simp_all add: linked_def)
    then have "prefix (?a # job_history s) (?a # bucket_of s h)" by simp
    then have "prefix (take 20 (?a # job_history s)) (take 100 (?a # bucket_of s h))"
      by (rule prefix_take_take) simp
    with assms h False show ?thesis
      unfolding linked_def store_entry_fields store_entry_global
      by (simp del: take_Cons_numeral)
  qed
qed

lemma inv_store_entry:
  "session_inv s \<Longrightarrow> api_token s \<noteq> None \<Longrightarrow> session_inv (store_entry e s)"
  by (simp add: session_inv_def refs_store_entry lists_store_entry linked_store_entry)

lemma inv_save:
  "session_inv s \<Longrightarrow> api_token s \<noteq> None \<Longrightarrow> session_inv (snd (save_job_to_history jd now s))"
  by (simp add: save_job_to_history_def inv_store_entry split: sum.splits)

lemma inv_step: "session_inv s \<Longrightarrow> session_inv (step hexdigest ev s)"
  by (cases ev) (simp_all add: inv_authenticate inv_logout inv_save inv_update_status)

lemma inv_run: "session_inv s \<Longrightarrow> session_inv (run hexdigest evs s)"
  unfolding run_def by (induction evs arbitrary: s) (simp_all add: inv_step)

lemma inv_reachable: "session_inv (run hexdigest evs init_state)"
  by (rule inv_run [OF inv_init])

section \<open>The status update on the store\<close>

text \<open>
  A loop writes to the store at the first address whose entry has the id. What a list
  shows afterwards depends on whether it holds that address: these lemmas relate the
  write to the update of the shown entries, \<open>spec_update_first\<close>.
\<close>

lemma update_first_status_eq:
  "update_first_status jid st as hp =
     (case first_match jid hp as of None \<Rightarrow> hp | Some a \<Rightarrow> hp[a := (hp ! a)\<lparr>status := st\<rparr>])"
  by (induction as) simp_all

lemma first_match_None: "first_match jid hp as = None \<longleftrightarrow> (\<forall>a \<in> set as. id' (hp ! a) \<noteq> jid)"
  by (induction as) simp_all

lemma first_match_SomeD:
  "first_match jid hp as = Some a \<Longrightarrow> a \<in> set as \<and> id' (hp ! a) = jid"
  by (induction as) (auto split: if_splits)

lemma first_match_prefix:
  "prefix as bs \<Longrightarrow> first_match jid hp as = Some a \<Longrightarrow> first_match jid hp bs = Some a"
proof (induction as arbitrary: bs)
  case Nil
  then show ?case by simp
next
  case (Cons x as)
  from Cons.prems(1) obtain bs' where bs: "bs = x # bs'" and p: "prefix as bs'"
    by (cases bs) auto
  show ?case using Cons.IH[OF p] Cons.prems(2) by (simp add: bs split: if_splits)
qed

lemma id_status_update [simp]: "id' ((hp[a := (hp ! a)\<lparr>status := st\<rparr>]) ! x) = id' (hp ! x)"
  by (cases "a < length hp") (simp_all add: nth_list_update list_update_beyond)

lemma first_match_status_update [simp]:
  "first_match jid (hp[a := (hp ! a)\<lparr>status := st\<rparr>]) as = first_match jid hp as"
  by (induction as) simp_all

lemma status_update_idem:
  "hp[a := (hp[a := (hp ! a)\<lparr>status := st\<rparr>] ! a)\<lparr>status := st\<rparr>]
     = hp[a := (hp ! a)\<lparr>status := st\<rparr>]"
  by (cases "a < length hp") (simp_all add: list_update_beyond)

lemma deref_update_notin: "a \<notin> set as \<Longrightarrow> deref (hp[a := v]) as = deref hp as"
  by (induction as) (auto simp add: deref_def)

lemma deref_first_match_Some:
  "distinct as \<Longrightarrow> \<forall>x \<in> set as. x < length hp \<Longrightarrow> first_match jid hp as = Some a \<Longrightarrow>
     deref (hp[a := (hp ! a)\<lparr>status := st\<rparr>]) as = spec_update_first jid st (deref hp as)"
proof (induction as)
  case Nil
  then show ?case by simp
next
  case (Cons x as)
  show ?case
  proof (cases "id' (hp ! x) = jid")
    case True
    with Cons.prems have ax: "a = x" by simp
    have "x \<notin> set as" using Cons.prems(1) by simp
    then have "deref (hp[x := (hp ! x)\<lparr>status := st\<rparr>]) as = deref hp as"
      by (rule deref_update_notin)
    with True ax Cons.prems(2) show ?thesis by (simp add: deref_def)
  next
    case False
    with Cons.prems have fm: "first_match jid hp as = Some a" by simp
    from first_match_SomeD[OF fm] False have "a \<noteq> x" by auto
    moreover have "deref (hp[a := (hp ! a)\<lparr>status := st\<rparr>]) as = spec_update_first jid st (deref hp as)"
      using Cons.IH Cons.prems fm by simp
    ultimately show ?thesis using False by (simp add: deref_def)
  qed
qed

lemma spec_update_first_noop:
  "\<forall>j \<in> set js. id' j \<noteq> jid \<Longrightarrow> spec_update_first jid st js = js"
  by (induction js) simp_all

lemma deref_first_match_None:
  "first_match jid hp as = None \<Longrightarrow> spec_update_first jid st (deref hp as) = deref hp as"
  by (rule spec_update_first_noop) (auto simp add: first_match_None deref_def)

text \<open>The effect of one loop on the view of any list.\<close>

lemma deref_update_first_same:
  "distinct as \<Longrightarrow> \<forall>x \<in> set as. x < length hp \<Longrightarrow>
     deref (update_first_status jid st as hp) as = spec_update_first jid st (deref hp as)"
  by (cases "first_match jid hp as")
     (simp_all add: update_first_status_eq deref_first_match_None deref_first_match_Some)

lemma deref_update_first_disjoint:
  "set as \<inter> set bs = {} \<Longrightarrow> deref (update_first_status jid st as hp) bs = deref hp bs"
  by (cases "first_match jid hp as")
     (auto simp add: update_first_status_eq dest!: first_match_SomeD intro!: deref_update_notin)

lemma length_spec_update_first [simp]: "length (spec_update_first jid st js) = length js"
  by (induction js) simp_all

lemma spec_update_first_nth:
  "i < length js \<Longrightarrow>
   spec_update_first jid st js ! i =
     (if id' (js ! i) = jid \<and> (\<forall>k < i. id' (js ! k) \<noteq> jid) then (js ! i)\<lparr>status := st\<rparr> else js ! i)"
proof (induction js arbitrary: i)
  case Nil
  then show ?case by simp
next
  case (Cons j js)
  show ?case
  proof (cases i)
    case 0
    then show ?thesis by simp
  next
    case (Suc n)
    with Cons.prems have n: "n < length js" by simp
    have all: "(\<forall>k < Suc n. id' ((j # js) ! k) \<noteq> jid) \<longleftrightarrow> id' j \<noteq> jid \<and> (\<forall>k < n. id' (js ! k) \<noteq> jid)"
      by (auto simp add: less_Suc_eq_0_disj)
    show ?thesis
    proof (cases "id' j = jid")
      case True
      then show ?thesis unfolding Suc all by simp
    next
      case False
      then show ?thesis unfolding Suc all using Cons.IH[OF n] by auto
    qed
  qed
qed

lemma update_status_fields [simp]:
  "job_history (update_status jid st s) = job_history s"
  "global_history (update_status jid st s) = global_history s"
  "api_token (update_status jid st s) = api_token s"
  "current_user_hash (update_status jid st s) = current_user_hash s"
  by (simp_all add: update_status_def Let_def)

lemma store_update_status:
  "store (update_status jid st s) =
     (case current_user_hash s of
        None \<Rightarrow> update_first_status jid st (job_history s) (store s)
      | Some h \<Rightarrow>
          (if h \<noteq> [] then
             (case global_history s h of
                None \<Rightarrow> update_first_status jid st (job_history s) (store s)
              | Some b \<Rightarrow> update_first_status jid st b
                            (update_first_status jid st (job_history s) (store s)))
           else update_first_status jid st (job_history s) (store s)))"
  by (simp add: update_status_def Let_def)

text \<open>When the session list is a prefix of the user's list, the second loop finds the
  entry the first loop has written, or the first loop has found nothing.\<close>

lemma two_loops_prefix:
  assumes "prefix as bs"
  shows "update_first_status jid st bs (update_first_status jid st as hp)
         = update_first_status jid st bs hp"
proof (cases "first_match jid hp as")
  case None
  then show ?thesis by (simp add: update_first_status_eq)
next
  case (Some a)
  from first_match_prefix[OF assms Some] Some show ?thesis
    by (simp add: update_first_status_eq status_update_idem)
qed

lemma deref_prefix_update:
  assumes "prefix as bs" "distinct bs" "\<forall>x \<in> set bs. x < length hp"
  shows "deref (update_first_status jid st bs hp) as = spec_update_first jid st (deref hp as)"
proof (cases "first_match jid hp as")
  case (Some a)
  from assms have das: "distinct as" and ras: "\<forall>x \<in> set as. x < length hp"
    by (auto simp add: prefix_def)
  from first_match_prefix[OF assms(1) Some] Some show ?thesis
    by (simp add: update_first_status_eq deref_first_match_Some[OF das ras Some])
next
  case None
  show ?thesis
  proof (cases "first_match jid hp bs")
    case N2: None
    with None show ?thesis by (simp add: update_first_status_eq deref_first_match_None)
  next
    case (Some b)
    from first_match_SomeD[OF Some] None have "b \<notin> set as"
      by (auto simp add: first_match_None)
    with Some None show ?thesis
      by (simp add: update_first_status_eq deref_update_notin deref_first_match_None)
  qed
qed

lemma update_status_active:
  assumes "session_inv s"
  shows "active_jobs (update_status jid st s) = spec_update_first jid st (active_jobs s)"
proof -
  from assms have r: "\<forall>x \<in> set (job_history s). x < length (store s)"
    and d: "distinct (job_history s)"
    by (simp_all add: session_inv_def refs_ok_def lists_ok_def)
  have plain: "deref (update_first_status jid st (job_history s) (store s)) (job_history s)
               = spec_update_first jid st (deref (store s) (job_history s))"
    by (rule deref_update_first_same[OF d r])
  show ?thesis
  proof (cases "current_user_hash s")
    case None
    then show ?thesis using plain by (simp add: active_jobs_def store_update_status)
  next
    case (Some h)
    show ?thesis
    proof (cases "h \<noteq> [] \<and> global_history s h \<noteq> None")
      case False
      then show ?thesis using plain Some
        by (auto simp add: active_jobs_def store_update_status)
    next
      case True
      then obtain b where b: "global_history s h = Some b" and h: "h \<noteq> []" by auto
      from assms Some b h have p: "prefix (job_history s) b"
        by (simp add: session_inv_def linked_def)
      from assms b have db: "distinct b" and rb: "\<forall>x \<in> set b. x < length (store s)"
        by (auto simp add: session_inv_def refs_ok_def lists_ok_def)
      show ?thesis using Some b h
        by (simp add: active_jobs_def store_update_status two_loops_prefix[OF p]
                      deref_prefix_update[OF p db rb])
    qed
  qed
qed

lemma update_status_archive:
  assumes "session_inv s"
  shows "archive (update_status jid st s) h =
           (if current_user_hash s = Some h \<and> h \<noteq> []
            then map_option (spec_update_first jid st) (archive s h) else archive s h)"
proof (cases "global_history s h")
  case None
  then show ?thesis by (simp add: archive_def)
next
  case (Some b)
  from assms Some have db: "distinct b" and rb: "\<forall>x \<in> set b. x < length (store s)"
    by (auto simp add: session_inv_def refs_ok_def lists_ok_def)
  let ?hp1 = "update_first_status jid st (job_history s) (store s)"
  show ?thesis
  proof (cases "current_user_hash s")
    case None
    with assms have "job_history s = []" by (simp add: session_inv_def linked_def)
    with None show ?thesis by (simp add: archive_def store_update_status)
  next
    case cu: (Some u)
    show ?thesis
    proof (cases "u = []")
      case True
      with assms cu Some have "set (job_history s) \<inter> set b = {}"
        by (auto simp add: session_inv_def linked_def)
      then have "deref ?hp1 b = deref (store s) b" by (rule deref_update_first_disjoint)
      then show ?thesis using cu True Some by (auto simp add: archive_def store_update_status)
    next
      case False
      show ?thesis
      proof (cases "global_history s u")
        case N: None
        with assms cu False have "job_history s = []" by (simp add: session_inv_def linked_def)
        with cu False N Some show ?thesis by (auto simp add: archive_def store_update_status)
      next
        case Su: (Some bu)
        from assms cu False Su have p: "prefix (job_history s) bu"
          by (simp add: session_inv_def linked_def)
        from assms Su have dbu: "distinct bu" and rbu: "\<forall>x \<in> set bu. x < length (store s)"
          by (auto simp add: session_inv_def refs_ok_def lists_ok_def)
        have st: "store (update_status jid st s) = update_first_status jid st bu (store s)"
          using cu False Su by (simp add: store_update_status two_loops_prefix[OF p])
        show ?thesis
        proof (cases "h = u")
          case True
          with Su Some have "b = bu" by simp
          then show ?thesis using True cu False Su st
            by (simp add: archive_def deref_update_first_same[OF dbu rbu])
        next
          case hu: False
          with assms Su Some have "set bu \<inter> set b = {}"
            unfolding session_inv_def lists_ok_def by blast
          then have "deref (update_first_status jid st bu (store s)) b = deref (store s) b"
            by (rule deref_update_first_disjoint)
          then show ?thesis using hu cu Some st by (simp add: archive_def)
        qed
      qed
    qed
  qed
qed

lemma update_status_no_match:
  assumes "\<forall>j \<in> set (active_jobs s). id' j \<noteq> jid"
    and "\<forall>h b. current_user_hash s = Some h \<and> archive s h = Some b \<longrightarrow> (\<forall>j \<in> set b. id' j \<noteq> jid)"
  shows "update_status jid st s = s"
proof -
  have 1: "update_first_status jid st (job_history s) (store s) = store s"
    using assms(1) by (simp add: update_first_status_eq active_jobs_def deref_def first_match_None[THEN iffD2])
  have 2: "\<And>h b. current_user_hash s = Some h \<Longrightarrow> global_history s h = Some b \<Longrightarrow>
             update_first_status jid st b (store s) = store s"
    using assms(2) by (simp add: update_first_status_eq archive_def deref_def first_match_None[THEN iffD2])
  have "store (update_status jid st s) = store s"
    by (simp add: store_update_status 1 2 split: option.splits)
  then show ?thesis by (simp add: update_status_def Let_def)
qed

section \<open>Recording an entry on the store\<close>

text \<open>Appending to the store changes no entry behind an address that was valid before.\<close>

lemma deref_append_store:
  "\<forall>x \<in> set as. x < length hp \<Longrightarrow> deref (hp @ es) as = deref hp as"
  by (simp add: deref_def nth_append)

lemma deref_take: "deref hp (take n as) = take n (deref hp as)"
  by (simp add: deref_def take_map)

lemma deref_new_front:
  "\<forall>x \<in> set as. x < length hp \<Longrightarrow>
     deref (hp @ [e]) (take n (length hp # as)) = take n (e # deref hp as)"
proof -
  assume r: "\<forall>x \<in> set as. x < length hp"
  have "deref (hp @ [e]) (length hp # as) = e # deref (hp @ [e]) as"
    by (simp add: deref_def)
  also have "\<dots> = e # deref hp as" using r by (simp add: deref_append_store)
  finally show ?thesis by (simp only: deref_take)
qed

lemma bucket_view_deref: "bucket_view s h = deref (store s) (bucket_of s h)"
  by (simp add: bucket_view_def archive_def bucket_of_def deref_def split: option.splits)

lemma refs_bucket_of: "refs_ok s \<Longrightarrow> \<forall>x \<in> set (bucket_of s h). x < length (store s)"
  by (auto simp add: refs_ok_def dest!: in_bucket_ofD)

lemma store_entry_active:
  assumes "refs_ok s"
  shows "active_jobs (store_entry e s) = take 20 (e # active_jobs s)"
  using assms unfolding active_jobs_def store_entry_fields
  by (intro deref_new_front) (simp add: refs_ok_def)

lemma store_entry_archive:
  assumes "refs_ok s"
  shows "archive (store_entry e s) h =
           (if current_user_hash s = Some h \<and> h \<noteq> []
            then Some (take 100 (e # bucket_view s h)) else archive s h)"
proof -
  have other: "archive (s\<lparr>store := store s @ [e]\<rparr>) h = archive s h"
    using assms by (cases "global_history s h")
      (auto simp add: archive_def refs_ok_def intro!: deref_append_store)
  show ?thesis
  proof (cases "current_user_hash s = Some h \<and> h \<noteq> []")
    case True
    then show ?thesis
      using deref_new_front[OF refs_bucket_of[OF assms], of e 100 h]
      by (simp add: archive_def store_entry_fields store_entry_global bucket_view_deref
               del: take_Cons_numeral)
  next
    case False
    then show ?thesis using other
      by (auto simp add: archive_def store_entry_fields store_entry_global split: option.splits)
  qed
qed

lemma job_entry_of_Inr:
  "job_data ''id'' = Some i \<Longrightarrow> job_data ''title'' = Some t \<Longrightarrow> job_data ''company'' = Some c \<Longrightarrow>
   job_data ''status'' = Some st \<Longrightarrow>
   job_entry_of job_data now = Inr \<lparr>id' = i, title = t, company = c, submitted_at = now, status = st\<rparr>"
  by (simp add: job_entry_of_def getitem_def)

lemma refs_reachable: "refs_ok (run hexdigest evs init_state)"
  using inv_reachable[of hexdigest evs] by (simp add: session_inv_def)


section \<open>Runs of submissions and logins\<close>

lemma run_Nil [simp]: "run hexdigest [] s = s"
  by (simp add: run_def)

lemma run_Cons [simp]: "run hexdigest (ev # evs) s = run hexdigest evs (step hexdigest ev s)"
  by (simp add: run_def)

lemma run_append [simp]:
  "run hexdigest (evs @ evs') s = run hexdigest evs' (run hexdigest evs s)"
  by (simp add: run_def)

lemma take_append_take: "take n (xs @ take n ys) = take n (xs @ ys)"
  by (simp add: min_def)

lemma bucket_view_store_entry:
  assumes "refs_ok s" "current_user_hash s = Some h" "h \<noteq> []"
  shows "bucket_view (store_entry e s) h = take 100 (e # bucket_view s h)"
  using store_entry_archive[OF assms(1), of e h] assms(2,3)
  by (simp add: bucket_view_def del: take_Cons_numeral)

lemma run_submissions:
  assumes "session_inv s" "api_token s \<noteq> None" "current_user_hash s = Some h" "h \<noteq> []"
  shows "bucket_view (run hexdigest (submissions jobs) s) h
           = take 100 (rev (recorded jobs) @ bucket_view s h)
         \<and> session_inv (run hexdigest (submissions jobs) s)
         \<and> api_token (run hexdigest (submissions jobs) s) = api_token s
         \<and> current_user_hash (run hexdigest (submissions jobs) s) = Some h"
  using assms
proof (induction jobs arbitrary: s)
  case Nil
  have "length (bucket_view s h) \<le> 100"
    using Nil.prems(1)
    by (auto simp add: bucket_view_def archive_def deref_def session_inv_def lists_ok_def
             split: option.splits)
  with Nil show ?case by (simp add: submissions_def)
next
  case (Cons j jobs)
  obtain jd now where j: "j = (jd, now)" by (cases j)
  show ?case
  proof (cases "job_entry_of jd now")
    case (Inl err)
    then have st: "step hexdigest (Submission_success jd now) s = s"
      by (simp add: save_job_to_history_def)
    from Cons.IH[OF Cons.prems] Inl st show ?thesis
      by (simp add: j submissions_def)
  next
    case (Inr e)
    let ?s1 = "store_entry e s"
    from Cons.prems(2) Inr have st: "step hexdigest (Submission_success jd now) s = ?s1"
      by (simp add: save_job_to_history_def)
    have r: "refs_ok s" using Cons.prems(1) by (simp add: session_inv_def)
    have inv1: "session_inv ?s1" by (rule inv_store_entry[OF Cons.prems(1,2)])
    have tok1: "api_token ?s1 \<noteq> None" "api_token ?s1 = api_token s"
      using Cons.prems(2) by (simp_all add: store_entry_fields)
    have h1: "current_user_hash ?s1 = Some h" using Cons.prems(3) by (simp add: store_entry_fields)
    have b1: "bucket_view ?s1 h = take 100 (e # bucket_view s h)"
      by (rule bucket_view_store_entry[OF r Cons.prems(3,4)])
    from Cons.IH[OF inv1 tok1(1) h1 Cons.prems(4)] st Inr tok1(2) show ?thesis
      by (simp add: j submissions_def b1 take_append_take del: take_Cons_numeral)
  qed
qed

lemma authenticate_view:
  assumes "job_history s = []" "token \<noteq> []"
  shows "active_jobs (snd (authenticate hexdigest token s))
           = (if get_user_hash hexdigest token = [] then []
              else bucket_view s (get_user_hash hexdigest token))"
    and "job_history (snd (authenticate hexdigest token s))
           = (if get_user_hash hexdigest token = [] then []
              else bucket_of s (get_user_hash hexdigest token))"
    and "archive (snd (authenticate hexdigest token s)) = archive s"
    and "current_user_hash (snd (authenticate hexdigest token s))
           = Some (get_user_hash hexdigest token)"
    and "api_token (snd (authenticate hexdigest token s)) = Some token"
  using assms
  by (auto simp add: authenticate_def load_user_history_def active_jobs_def bucket_view_def
        archive_def bucket_of_def deref_def split: option.splits)

lemma logout_view:
  "archive (logout s) = archive s" "job_history (logout s) = []" "api_token (logout s) = None"
  "bucket_view (logout s) h = bucket_view s h" "bucket_of (logout s) h = bucket_of s h"
  by (auto simp add: logout_def archive_def bucket_view_def bucket_of_def)



lemma relogin_active_jobs:
  assumes "session_inv s0" "api_token s0 = None" "token \<noteq> []"
    and "get_user_hash hexdigest token \<noteq> []"
  shows "active_jobs (run hexdigest
           (Click_authenticate token # submissions jobs @ [Click_logout, Click_authenticate token])
           s0)
         = take 100 (rev (recorded jobs) @ bucket_view s0 (get_user_hash hexdigest token))"
proof -
  let ?h = "get_user_hash hexdigest token"
  let ?s1 = "snd (authenticate hexdigest token s0)"
  let ?s2 = "run hexdigest (submissions jobs) ?s1"
  have jh0: "job_history s0 = []"
    using assms(1,2) by (auto simp add: session_inv_def linked_def split: option.splits)
  have inv1: "session_inv ?s1" by (rule inv_authenticate[OF assms(1,2)])
  have tok1: "api_token ?s1 \<noteq> None" and cu1: "current_user_hash ?s1 = Some ?h"
    and ar1: "archive ?s1 = archive s0"
    using authenticate_view[OF jh0 assms(3), of hexdigest] by simp_all
  have bv1: "bucket_view ?s1 ?h = bucket_view s0 ?h" by (simp add: bucket_view_def ar1)
  from run_submissions[OF inv1 tok1 cu1 assms(4), of hexdigest jobs]
  have bv2: "bucket_view ?s2 ?h = take 100 (rev (recorded jobs) @ bucket_view s0 ?h)"
    and tok2: "api_token ?s2 \<noteq> None"
    using tok1 by (simp_all add: bv1)
  have "active_jobs (snd (authenticate hexdigest token (logout ?s2))) = bucket_view ?s2 ?h"
    using authenticate_view(1)[OF logout_view(2) assms(3), of hexdigest ?s2] assms(4)
    by (simp add: logout_view)
  then show ?thesis
    using assms(2) tok2 by (simp add: bv2 logout_view)
qed

lemma recorded_replicate:
  "job_entry_of job_data now = Inr e \<Longrightarrow> recorded (replicate n (job_data, now)) = replicate n e"
  by (induction n) simp_all

section \<open>Properties of the application\<close>

subsection \<open>Recording a job\<close>

text \<open>
  C1. \<open>save_job_to_history\<close>, called in any state a session can reach with a descriptor
  that has the four keys, returns normally; the new entry is at the front of the session
  history, which is cut to 20; when the user hash is truthy the entry is also at the front
  of that user's list in \<open>global_history\<close>, cut to 100, and the lists of the other users
  are as before; when no user hash is set \<open>global_history\<close> is untouched. So the entry
  recorded last is the first of the session history, and a session history of 20 entries
  loses its last, the oldest, entry.
\<close>

theorem save_job_front:
  assumes "job_data ''id'' = Some i" "job_data ''title'' = Some t"
    "job_data ''company'' = Some c" "job_data ''status'' = Some st"
  shows "let e = \<lparr>id' = i, title = t, company = c, submitted_at = now, status = st\<rparr>;
             s = run hexdigest evs init_state;
             s' = snd (save_job_to_history job_data now s)
         in fst (save_job_to_history job_data now s) = Inr ()
    \<and> active_jobs s' = take 20 (e # active_jobs s)
    \<and> (\<forall>h. archive s' h =
          (if current_user_hash s = Some h \<and> h \<noteq> []
           then Some (take 100 (e # (case archive s h of None \<Rightarrow> [] | Some b \<Rightarrow> b)))
           else archive s h))
    \<and> (\<not> truthy (current_user_hash s) \<longrightarrow> global_history s' = global_history s)
    \<and> hd (active_jobs s') = e
    \<and> (length (active_jobs s) = 20 \<longrightarrow> active_jobs s' = e # butlast (active_jobs s))"
proof -
  define e where "e = \<lparr>id' = i, title = t, company = c, submitted_at = now, status = st\<rparr>"
  define s where "s = run hexdigest evs init_state"
  define s' where "s' = snd (save_job_to_history job_data now s)"
  have je: "job_entry_of job_data now = Inr e"
    unfolding e_def using assms(1-4) by (rule job_entry_of_Inr)
  have s': "s' = store_entry e s" and f: "fst (save_job_to_history job_data now s) = Inr ()"
    by (simp_all add: s'_def save_job_to_history_def je)
  have r: "refs_ok s" unfolding s_def by (rule refs_reachable)
  have a: "active_jobs s' = take 20 (e # active_jobs s)"
    unfolding s' by (rule store_entry_active[OF r])
  have b: "\<forall>h. archive s' h =
          (if current_user_hash s = Some h \<and> h \<noteq> []
           then Some (take 100 (e # (case archive s h of None \<Rightarrow> [] | Some b \<Rightarrow> b)))
           else archive s h)"
    unfolding s' using store_entry_archive[OF r, of e] by (simp add: bucket_view_def)
  have c: "\<not> truthy (current_user_hash s) \<longrightarrow> global_history s' = global_history s"
    unfolding s' by (auto simp add: store_entry_global truthy_def split: option.splits)
  have d: "hd (active_jobs s') = e" unfolding a by simp
  have "length (active_jobs s) = 20 \<longrightarrow> take 19 (active_jobs s) = butlast (active_jobs s)"
    by (simp add: butlast_conv_take)
  then have g: "length (active_jobs s) = 20 \<longrightarrow> active_jobs s' = e # butlast (active_jobs s)"
    unfolding a by simp
  from f a b c d g show ?thesis
    unfolding Let_def e_def [symmetric] s_def [symmetric] s'_def [symmetric] by blast
qed

theorem save_job_front_witness:
  "let jd = [''id'' \<mapsto> ''j1'', ''title'' \<mapsto> ''Q4 Call'', ''company'' \<mapsto> ''Acme'',
             ''status'' \<mapsto> ''processing''];
       hexdigest = (\<lambda>t. ''e99a18c428cb38d5f260853678922e03'');
       s = run hexdigest [Click_authenticate ''abc123''] init_state;
       s' = snd (save_job_to_history jd ''2025-01-01 10:00:00'' s);
       e = \<lparr>id' = ''j1'', title = ''Q4 Call'', company = ''Acme'',
            submitted_at = ''2025-01-01 10:00:00'', status = ''processing''\<rparr>
   in jd ''id'' = Some ''j1'' \<and> jd ''title'' = Some ''Q4 Call'' \<and> jd ''company'' = Some ''Acme''
      \<and> jd ''status'' = Some ''processing''
      \<and> active_jobs s' = [e] \<and> archive s' ''e99a18c428cb38d5'' = Some [e] \<and> hd (active_jobs s') = e"
  using save_job_front [where job_data = "[''id'' \<mapsto> ''j1'', ''title'' \<mapsto> ''Q4 Call'',
                                            ''company'' \<mapsto> ''Acme'', ''status'' \<mapsto> ''processing'']"
      and i = "''j1''" and t = "''Q4 Call''" and c = "''Acme''" and st = "''processing''"
      and now = "''2025-01-01 10:00:00''" and hexdigest = "\<lambda>t. ''e99a18c428cb38d5f260853678922e03''"
      and evs = "[Click_authenticate ''abc123'']"]
  by (simp add: Let_def run_def authenticate_def load_user_history_def get_user_hash_def
        init_state_def active_jobs_def archive_def deref_def save_job_to_history_def
        job_entry_of_def getitem_def store_entry_def truthy_def)

text \<open>
  C10. \<open>save_job_to_history\<close> needs the keys \<open>id\<close>, \<open>title\<close>, \<open>company\<close> and \<open>status\<close> in
  its argument: with all four it returns normally; with one missing it raises \<open>KeyError\<close>
  for the first missing key, in the order of the dict literal, and leaves the session
  state, so both histories, as it was.
\<close>

theorem save_job_keys:
  "({''id'', ''title'', ''company'', ''status''} \<subseteq> dom job_data \<longrightarrow>
      (\<exists>s'. save_job_to_history job_data now s = (Inr (), s')))
   \<and> (\<not> {''id'', ''title'', ''company'', ''status''} \<subseteq> dom job_data \<longrightarrow>
      (\<exists>k \<in> {''id'', ''title'', ''company'', ''status''}.
          k \<notin> dom job_data \<and> save_job_to_history job_data now s = (Inl (KeyError k), s))
      \<and> save_job_to_history job_data now s =
          (Inl (KeyError (hd (filter (\<lambda>k. job_data k = None)
                                [''id'', ''title'', ''company'', ''status'']))), s))"
  by (auto simp add: save_job_to_history_def job_entry_of_def getitem_def dom_def
           split: option.splits)

theorem save_job_keys_witness:
  "(\<exists>s'. save_job_to_history
            [''id'' \<mapsto> ''j1'', ''title'' \<mapsto> ''Q4 Call'', ''company'' \<mapsto> ''Acme'',
             ''status'' \<mapsto> ''processing''] ''2025-01-01 10:00:00'' init_state = (Inr (), s'))
   \<and> save_job_to_history [''id'' \<mapsto> ''j1'', ''company'' \<mapsto> ''Acme'', ''status'' \<mapsto> ''processing'']
         ''2025-01-01 10:00:00'' init_state = (Inl (KeyError ''title''), init_state)"
  using save_job_keys [of "[''id'' \<mapsto> ''j1'', ''title'' \<mapsto> ''Q4 Call'', ''company'' \<mapsto> ''Acme'',
                           ''status'' \<mapsto> ''processing'']" "''2025-01-01 10:00:00''" init_state]
    save_job_keys [of "[''id'' \<mapsto> ''j1'', ''company'' \<mapsto> ''Acme'', ''status'' \<mapsto> ''processing'']"
                      "''2025-01-01 10:00:00''" init_state]
  by (simp add: save_job_to_history_def job_entry_of_def getitem_def)

subsection \<open>The API request wrapper\<close>

text \<open>
  C3. A method other than GET and POST raises \<open>ValueError\<close> inside the \<open>try\<close>, and the
  handler of the same \<open>try\<close> catches it: for the method \<open>PUT\<close> the call returns \<open>None\<close> with
  an error message and no exception leaves the function, which is also what a GET does
  whose connection fails with that message.
\<close>

theorem make_api_request_unsupported_method:
  "make_api_request requests_get requests_post ''PUT'' endpoint headers data files =
     Inr (None, [Error ''API Request Error: Unsupported method: PUT''])
   \<and> make_api_request requests_get requests_post ''PUT'' endpoint headers data files =
     make_api_request (\<lambda>url h. Inl (RequestException ''Unsupported method: PUT''))
       requests_post ''GET'' endpoint headers data files"
  by (simp add: make_api_request_def request_attempt_def)

subsection \<open>The query string of the export\<close>

text \<open>
  C6. For every setting of the five toggles the query string is the \<open>name=1\<close> parameters of
  the toggles that are set, one each, in the fixed order, joined by \<open>&\<close>; it starts with
  \<open>?\<close> exactly when a toggle is set; with no toggle it is empty, and with
  \<open>remove_timestamps\<close> and \<open>remove_keywords\<close> alone it is
  \<open>?remove_timestamps=1&remove_keywords=1\<close>.
\<close>

theorem query_string_spec:
  "query_string a b c d e =
     (if a \<or> b \<or> c \<or> d \<or> e then CHR ''?'' # join ''&'' (spec_params [a, b, c, d, e]) else [])
   \<and> ((\<exists>r. query_string a b c d e = CHR ''?'' # r) = (a \<or> b \<or> c \<or> d \<or> e))
   \<and> length (spec_params [a, b, c, d, e]) = length (filter id [a, b, c, d, e])
   \<and> query_string False False False False False = []
   \<and> query_string True False False False True = ''?remove_timestamps=1&remove_keywords=1''"
  by (cases a; cases b; cases c; cases d; cases e;
      simp add: query_string_def spec_params_def toggle_names_def)

theorem query_string_spec_witness:
  "query_string False False True False False = ''?remove_speaker_labels=1''
   \<and> spec_params [False, False, True, False, False] = [''remove_speaker_labels=1'']"
  using query_string_spec [of False False True False False]
  by (simp add: spec_params_def toggle_names_def)


subsection \<open>The status update\<close>

text \<open>
  C2. The status update after a successful status fetch, in any state a session can
  reach: the two lists of addresses and the login fields stay as they are; what the
  session history shows, and what the list of the current user shows, is the old content
  with the status of the first entry whose id matches replaced and nothing else
  changed (\<open>spec_update_first\<close>, spelled out index by index in the last part); the lists of
  the other users show what they showed; and when neither the session history nor the
  current user's list has an entry with that id the whole state is unchanged.
\<close>

theorem status_update_frame:
  "let s = run hexdigest evs init_state;
       s' = update_status job_id new_status s
   in job_history s' = job_history s \<and> global_history s' = global_history s
      \<and> api_token s' = api_token s \<and> current_user_hash s' = current_user_hash s
      \<and> active_jobs s' = spec_update_first job_id new_status (active_jobs s)
      \<and> (\<forall>h. archive s' h =
            (if current_user_hash s = Some h \<and> h \<noteq> []
             then map_option (spec_update_first job_id new_status) (archive s h)
             else archive s h))
      \<and> ((\<forall>j \<in> set (active_jobs s). id' j \<noteq> job_id)
           \<and> (\<forall>h b. current_user_hash s = Some h \<and> archive s h = Some b
                  \<longrightarrow> (\<forall>j \<in> set b. id' j \<noteq> job_id))
          \<longrightarrow> s' = s)
      \<and> (\<forall>js i. i < length js \<longrightarrow>
            length (spec_update_first job_id new_status js) = length js
            \<and> spec_update_first job_id new_status js ! i =
                (if id' (js ! i) = job_id \<and> (\<forall>k < i. id' (js ! k) \<noteq> job_id)
                 then (js ! i)\<lparr>status := new_status\<rparr> else js ! i))"
proof -
  define s where "s = run hexdigest evs init_state"
  have inv: "session_inv s" unfolding s_def by (rule inv_reachable)
  have a: "active_jobs (update_status job_id new_status s)
           = spec_update_first job_id new_status (active_jobs s)"
    by (rule update_status_active[OF inv])
  have b: "\<forall>h. archive (update_status job_id new_status s) h =
            (if current_user_hash s = Some h \<and> h \<noteq> []
             then map_option (spec_update_first job_id new_status) (archive s h)
             else archive s h)"
    using update_status_archive[OF inv] by blast
  have c: "(\<forall>j \<in> set (active_jobs s). id' j \<noteq> job_id)
           \<and> (\<forall>h b. current_user_hash s = Some h \<and> archive s h = Some b
                  \<longrightarrow> (\<forall>j \<in> set b. id' j \<noteq> job_id))
          \<longrightarrow> update_status job_id new_status s = s"
    using update_status_no_match[of s job_id new_status] by blast
  have d: "\<forall>js i. i < length js \<longrightarrow>
            length (spec_update_first job_id new_status js) = length js
            \<and> spec_update_first job_id new_status js ! i =
                (if id' (js ! i) = job_id \<and> (\<forall>k < i. id' (js ! k) \<noteq> job_id)
                 then (js ! i)\<lparr>status := new_status\<rparr> else js ! i)"
    using spec_update_first_nth by simp
  from a b c d show ?thesis
    unfolding Let_def s_def [symmetric] by simp
qed

theorem status_update_frame_witness:
  "let jd1 = [''id'' \<mapsto> ''j1'', ''title'' \<mapsto> ''Q4 Call'', ''company'' \<mapsto> ''Acme'',
              ''status'' \<mapsto> ''processing''];
       jd2 = [''id'' \<mapsto> ''j2'', ''title'' \<mapsto> ''Q1 Call'', ''company'' \<mapsto> ''Acme'',
              ''status'' \<mapsto> ''processing''];
       e1 = \<lparr>id' = ''j1'', title = ''Q4 Call'', company = ''Acme'',
             submitted_at = ''2025-01-01 10:00:00'', status = ''processing''\<rparr>;
       e2 = \<lparr>id' = ''j2'', title = ''Q1 Call'', company = ''Acme'',
             submitted_at = ''2025-01-01 11:00:00'', status = ''processing''\<rparr>;
       s = run (\<lambda>t. ''e99a18c428cb38d5f260853678922e03'')
             [Click_authenticate ''abc123'',
              Submission_success jd1 ''2025-01-01 10:00:00'',
              Submission_success jd2 ''2025-01-01 11:00:00''] init_state
   in active_jobs s = [e2, e1]
      \<and> active_jobs (update_status ''j1'' ''completed'' s) = [e2, e1\<lparr>status := ''completed''\<rparr>]
      \<and> archive (update_status ''j1'' ''completed'' s) ''e99a18c428cb38d5''
          = Some [e2, e1\<lparr>status := ''completed''\<rparr>]
      \<and> update_status ''j3'' ''completed'' s = s"
  using status_update_frame [where hexdigest = "\<lambda>t. ''e99a18c428cb38d5f260853678922e03''"
      and evs = "[Click_authenticate ''abc123'',
              Submission_success [''id'' \<mapsto> ''j1'', ''title'' \<mapsto> ''Q4 Call'', ''company'' \<mapsto> ''Acme'',
              ''status'' \<mapsto> ''processing''] ''2025-01-01 10:00:00'',
              Submission_success [''id'' \<mapsto> ''j2'', ''title'' \<mapsto> ''Q1 Call'', ''company'' \<mapsto> ''Acme'',
              ''status'' \<mapsto> ''processing''] ''2025-01-01 11:00:00'']"
      and job_id = "''j1''" and new_status = "''completed''"]
    status_update_frame [where hexdigest = "\<lambda>t. ''e99a18c428cb38d5f260853678922e03''"
      and evs = "[Click_authenticate ''abc123'',
              Submission_success [''id'' \<mapsto> ''j1'', ''title'' \<mapsto> ''Q4 Call'', ''company'' \<mapsto> ''Acme'',
              ''status'' \<mapsto> ''processing''] ''2025-01-01 10:00:00'',
              Submission_success [''id'' \<mapsto> ''j2'', ''title'' \<mapsto> ''Q1 Call'', ''company'' \<mapsto> ''Acme'',
              ''status'' \<mapsto> ''processing''] ''2025-01-01 11:00:00'']"
      and job_id = "''j3''" and new_status = "''completed''"]
  by (simp add: Let_def run_def authenticate_def load_user_history_def get_user_hash_def
        init_state_def active_jobs_def archive_def deref_def save_job_to_history_def
        job_entry_of_def getitem_def store_entry_def truthy_def update_status_def)


subsection \<open>Authentication and the load of the history\<close>

lemma load_user_history_login [simp]:
  "api_token (load_user_history s) = api_token s"
  "current_user_hash (load_user_history s) = current_user_hash s"
  "global_history (load_user_history s) = global_history s"
  "store (load_user_history s) = store s"
  by (simp_all add: load_user_history_def split: option.splits)

lemma logged_out_empty:
  "api_token (run hexdigest evs init_state) = None \<Longrightarrow>
     job_history (run hexdigest evs init_state) = [] \<and>
     current_user_hash (run hexdigest evs init_state) = None"
  using inv_reachable[of hexdigest evs]
  by (auto simp add: session_inv_def linked_def split: option.splits)

text \<open>
  C7, as the code has it. The handler rejects the empty token, and only the empty token,
  with the error message and the state as it was; every other token, a blank one too,
  becomes \<open>api_token\<close>, its hash becomes \<open>current_user_hash\<close>, and the history is loaded.
\<close>

theorem authenticate_empty_only:
  "authenticate hexdigest [] s = (Error ''Please enter a valid API token'', s)
   \<and> (token \<noteq> [] \<longrightarrow>
        fst (authenticate hexdigest token s) = Success (check_mark @ '' Authenticated successfully!'')
        \<and> api_token (snd (authenticate hexdigest token s)) = Some token
        \<and> current_user_hash (snd (authenticate hexdigest token s))
            = Some (get_user_hash hexdigest token)
        \<and> snd (authenticate hexdigest token s)
            = load_user_history (s\<lparr>api_token := Some token,
                                    current_user_hash := Some (get_user_hash hexdigest token)\<rparr>))"
  by (simp add: authenticate_def)

theorem authenticate_empty_only_witness:
  "''abc123'' \<noteq> []
   \<and> authenticate (\<lambda>t. ''e99a18c428cb38d5f260853678922e03'') ''abc123'' init_state
       = (Success (check_mark @ '' Authenticated successfully!''),
          init_state\<lparr>api_token := Some ''abc123'',
                      current_user_hash := Some ''e99a18c428cb38d5''\<rparr>)"
  using authenticate_empty_only [of "\<lambda>t. ''e99a18c428cb38d5f260853678922e03''" init_state "''abc123''"]
  by (simp add: authenticate_def load_user_history_def get_user_hash_def init_state_def)

text \<open>
  The claim C7 fails for a blank token: a token of one space is accepted. The digest is
  the MD5 of the one-space string.
\<close>

theorem authenticate_blank_counterexample:
  "fst (authenticate (\<lambda>t. ''7215ee9c7d9dc229d2921a40e899ec5f'') '' '' init_state)
     = Success (check_mark @ '' Authenticated successfully!'')
   \<and> api_token (snd (authenticate (\<lambda>t. ''7215ee9c7d9dc229d2921a40e899ec5f'') '' '' init_state))
     = Some '' ''
   \<and> current_user_hash
       (snd (authenticate (\<lambda>t. ''7215ee9c7d9dc229d2921a40e899ec5f'') '' '' init_state))
     = Some ''7215ee9c7d9dc229''"
  by (simp add: authenticate_def get_user_hash_def init_state_def)

lemma step_no_empty_key:
  "global_history s [] = None \<Longrightarrow> global_history (step hexdigest ev s) [] = None"
  by (cases ev)
     (auto simp add: authenticate_def logout_def save_job_to_history_def store_entry_global
           split: sum.splits option.splits)

lemma run_no_empty_key:
  "global_history s [] = None \<Longrightarrow> global_history (run hexdigest evs s) [] = None"
  by (induction evs arbitrary: s) (simp_all add: step_no_empty_key)

lemma no_empty_key: "global_history (run hexdigest evs init_state) [] = None"
  by (rule run_no_empty_key) (simp add: init_state_def)

text \<open>
  C8. \<open>load_user_history\<close> is called at one place, line 154, in a session without a token
  whose token and user hash have just been set. There, for every user id: when the archive
  has a bucket for it, the session history becomes a copy of that bucket (the same
  addresses, so the session shows the entries of the bucket); when it has none, the
  session history is the empty list. The archive is untouched. The state at the call is
  the one the Authenticate handler builds for a non-empty token.
\<close>

theorem load_user_history_at_call:
  assumes "api_token (run hexdigest evs init_state) = None"
  shows "let s = (run hexdigest evs init_state)
                   \<lparr>api_token := Some token, current_user_hash := Some user_id\<rparr>
         in (\<forall>b. archive s user_id = Some b \<longrightarrow> active_jobs (load_user_history s) = b)
            \<and> (\<forall>as. global_history s user_id = Some as \<longrightarrow>
                  job_history (load_user_history s) = as)
            \<and> (archive s user_id = None \<longrightarrow> active_jobs (load_user_history s) = [])
            \<and> archive (load_user_history s) = archive s
            \<and> (token \<noteq> [] \<and> user_id = get_user_hash hexdigest token \<longrightarrow>
                  snd (authenticate hexdigest token (run hexdigest evs init_state))
                    = load_user_history s)"
proof -
  define s0 where "s0 = run hexdigest evs init_state"
  define s where "s = s0\<lparr>api_token := Some token, current_user_hash := Some user_id\<rparr>"
  have jh: "job_history s = []"
    using logged_out_empty[OF assms] by (simp add: s_def s0_def)
  have key: "global_history s [] = None"
    using no_empty_key[of hexdigest evs] by (simp add: s_def s0_def)
  have cu: "current_user_hash s = Some user_id" by (simp add: s_def)
  have 1: "\<forall>as. global_history s user_id = Some as \<longrightarrow> job_history (load_user_history s) = as"
    using cu key by (auto simp add: load_user_history_def)
  have 2: "\<forall>b. archive s user_id = Some b \<longrightarrow> active_jobs (load_user_history s) = b"
    using 1 by (auto simp add: archive_def active_jobs_def)
  have 3: "archive s user_id = None \<longrightarrow> active_jobs (load_user_history s) = []"
    using cu jh by (auto simp add: load_user_history_def archive_def active_jobs_def deref_def)
  have 4: "archive (load_user_history s) = archive s"
    by (auto simp add: archive_def)
  have 5: "token \<noteq> [] \<and> user_id = get_user_hash hexdigest token \<longrightarrow>
             snd (authenticate hexdigest token s0) = load_user_history s"
    by (simp add: authenticate_def s_def)
  from 1 2 3 4 5 show ?thesis
    unfolding Let_def s0_def [symmetric] s_def [symmetric] by blast
qed

theorem load_user_history_at_call_witness:
  "let jd = [''id'' \<mapsto> ''j1'', ''title'' \<mapsto> ''Q4 Call'', ''company'' \<mapsto> ''Acme'',
             ''status'' \<mapsto> ''processing''];
       e = \<lparr>id' = ''j1'', title = ''Q4 Call'', company = ''Acme'',
            submitted_at = ''2025-01-01 10:00:00'', status = ''processing''\<rparr>;
       d = (\<lambda>t. ''e99a18c428cb38d5f260853678922e03'');
       evs = [Click_authenticate ''abc123'',
              Submission_success jd ''2025-01-01 10:00:00'', Click_logout];
       s = (run d evs init_state)
             \<lparr>api_token := Some ''abc123'', current_user_hash := Some ''e99a18c428cb38d5''\<rparr>;
       s' = (run d [] init_state)
             \<lparr>api_token := Some ''abc123'', current_user_hash := Some ''e99a18c428cb38d5''\<rparr>
   in api_token (run d evs init_state) = None \<and> api_token (run d [] init_state) = None
      \<and> archive s ''e99a18c428cb38d5'' = Some [e] \<and> active_jobs s = []
      \<and> active_jobs (load_user_history s) = [e]
      \<and> archive s' ''e99a18c428cb38d5'' = None \<and> active_jobs (load_user_history s') = []
      \<and> snd (authenticate d ''abc123'' (run d evs init_state)) = load_user_history s"
  using load_user_history_at_call [where hexdigest = "\<lambda>t. ''e99a18c428cb38d5f260853678922e03''"
      and evs = "[Click_authenticate ''abc123'',
              Submission_success [''id'' \<mapsto> ''j1'', ''title'' \<mapsto> ''Q4 Call'', ''company'' \<mapsto> ''Acme'',
                 ''status'' \<mapsto> ''processing''] ''2025-01-01 10:00:00'', Click_logout]"
      and token = "''abc123''" and user_id = "''e99a18c428cb38d5''"]
    load_user_history_at_call [where hexdigest = "\<lambda>t. ''e99a18c428cb38d5f260853678922e03''"
      and evs = "[]" and token = "''abc123''" and user_id = "''e99a18c428cb38d5''"]
  by (simp add: Let_def authenticate_def load_user_history_def get_user_hash_def
        init_state_def active_jobs_def archive_def deref_def save_job_to_history_def
        job_entry_of_def getitem_def store_entry_def truthy_def logout_def)

subsection \<open>Auto-refresh\<close>










subsection \<open>Logging out and in again\<close>




text \<open>
  C4. The session history is not bounded by 20. Log in, record \<open>n\<close> jobs, log out and log
  in again with the same token: \<open>load_user_history\<close> copies the user's whole list, which
  holds up to 100 entries, so the session history then has \<open>min 100 n\<close> entries, 21 for 21
  jobs. The digest is the MD5 of the token.
\<close>

theorem session_history_exceeds_cap:
  "length (active_jobs (run (\<lambda>t. ''e99a18c428cb38d5f260853678922e03'')
      (Click_authenticate ''abc123'' #
       submissions (replicate n ([''id'' \<mapsto> ''j1'', ''title'' \<mapsto> ''Q4 Call'',
                                  ''company'' \<mapsto> ''Acme'', ''status'' \<mapsto> ''processing''],
                                 ''2025-01-01 10:00:00''))
       @ [Click_logout, Click_authenticate ''abc123''])
      init_state)) = min 100 n
   \<and> length (active_jobs (run (\<lambda>t. ''e99a18c428cb38d5f260853678922e03'')
      (Click_authenticate ''abc123'' #
       submissions (replicate 21 ([''id'' \<mapsto> ''j1'', ''title'' \<mapsto> ''Q4 Call'',
                                   ''company'' \<mapsto> ''Acme'', ''status'' \<mapsto> ''processing''],
                                  ''2025-01-01 10:00:00''))
       @ [Click_logout, Click_authenticate ''abc123''])
      init_state)) = 21"
proof -
  let ?d = "\<lambda>t::string. ''e99a18c428cb38d5f260853678922e03''"
  let ?jd = "[''id'' \<mapsto> ''j1'', ''title'' \<mapsto> ''Q4 Call'',
              ''company'' \<mapsto> ''Acme'', ''status'' \<mapsto> ''processing'']"
  let ?e = "\<lparr>id' = ''j1'', title = ''Q4 Call'', company = ''Acme'',
             submitted_at = ''2025-01-01 10:00:00'', status = ''processing''\<rparr>"
  have je: "job_entry_of ?jd ''2025-01-01 10:00:00'' = Inr ?e"
    by (simp add: job_entry_of_def getitem_def)
  have h: "get_user_hash ?d ''abc123'' \<noteq> []" by (simp add: get_user_hash_def)
  have out: "api_token init_state = None" by (simp add: init_state_def)
  have bv: "bucket_view init_state (get_user_hash ?d ''abc123'') = []"
    by (simp add: bucket_view_def archive_def init_state_def)
  have eq: "\<And>k. active_jobs (run ?d
      (Click_authenticate ''abc123'' #
       submissions (replicate k (?jd, ''2025-01-01 10:00:00''))
       @ [Click_logout, Click_authenticate ''abc123''])
      init_state)
      = take 100 (rev (recorded (replicate k (?jd, ''2025-01-01 10:00:00'')))
                  @ bucket_view init_state (get_user_hash ?d ''abc123''))"
    by (rule relogin_active_jobs[OF inv_init out _ h]) simp
  have len: "\<And>k. length (active_jobs (run ?d
      (Click_authenticate ''abc123'' #
       submissions (replicate k (?jd, ''2025-01-01 10:00:00''))
       @ [Click_logout, Click_authenticate ''abc123''])
      init_state)) = min 100 k"
    unfolding eq recorded_replicate[OF je] bv by simp
  show ?thesis unfolding len by simp
qed


end
